theory Spec2Isabelle
  imports Complex_Main "HOL-Library.Sublist"
begin

section \<open>Batch image resizer: the component \<open>ImageResizer.jsx\<close>\<close>

text \<open>
  The component keeps a list of admitted images, two target sizes and a flag, and on
  request resizes every image on a canvas, stores the results in a zip archive and
  offers the archive for download. The embedding follows the handlers of the component:
  \<open>handleDrop\<close>, \<open>handleFileInput\<close>, \<open>resizeImage\<close> and \<open>processAndDownload\<close>.

  JavaScript numbers are read as exact rationals: the rounding of IEEE doubles is not
  modelled. The arithmetic of the component divides by \<open>img.height\<close> and by the target
  height; where either is zero JavaScript yields \<open>Infinity\<close> or \<open>NaN\<close>, which the
  rationals do not have, so every statement that depends on a quotient assumes both
  positive (loaded rasters have positive sizes, the sliders range over 100..2000).
\<close>

subsection \<open>Data\<close>

type_synonym blob = "nat list"

text \<open>A \<open>File\<close> of the browser: its name, MIME type, size and content.\<close>

record jsfile =
  fname :: string
  ftype :: string
  fsize :: nat
  fdata :: blob

text \<open>\<open>URL.createObjectURL(file)\<close> yields a handle that stands for the file.\<close>

datatype url = ObjectURL jsfile

text \<open>An admitted item: \<open>{file, preview, name, originalSize}\<close>.\<close>

record image =
  src_file :: jsfile
  preview :: url
  name :: string
  originalSize :: nat

text \<open>The component state read by the resize: \<open>width\<close>, \<open>height\<close>, \<open>preserveAspectRatio\<close>.\<close>

record settings =
  width :: nat
  height :: nat
  preserveAspectRatio :: bool

text \<open>
  The canvas as the \<open>onload\<close> handler leaves it: the values assigned to \<open>canvas.width\<close>
  and \<open>canvas.height\<close>, and the arguments of the one \<open>drawImage(img, dx, dy, dw, dh)\<close>.
\<close>

record canvas =
  c_width :: rat
  c_height :: rat
  drawn :: "url \<times> rat \<times> rat \<times> rat \<times> rat"

text \<open>The value a resize promise resolves with: \<open>{blob, name}\<close>; a null blob is \<open>None\<close>.\<close>

record processed =
  p_blob :: "blob option"
  p_name :: string

text \<open>
  The archive object of the zip library: entries keyed by name, in insertion order.
\<close>

type_synonym zip = "(string \<times> blob option) list"

text \<open>
  What the component asks of its surroundings. \<open>load\<close> is the loading of an \<open>Image\<close>
  from a preview handle: \<open>Some (img.width, img.height)\<close> when \<open>onload\<close> fires, \<open>None\<close>
  when the bytes do not decode and \<open>onload\<close> never fires. \<open>toBlob\<close> is
  \<open>canvas.toBlob(callback, type, quality)\<close>: the blob handed to the callback, \<open>None\<close> for
  null. \<open>now\<close> is the date read by \<open>new Date()\<close> while the archive is filled: the
  component calls \<open>zip.file(name, blob)\<close> with no \<open>date\<close> option, and the zip library
  then stamps the entry with the current date; all entries are added in one synchronous
  \<open>forEach\<close>, so they carry the date of that moment. \<open>generateAsync\<close> serialises the
  entries together with their date; \<open>None\<close> is a rejected promise.
\<close>

record browser =
  load :: "url \<Rightarrow> (nat \<times> nat) option"
  toBlob :: "canvas \<Rightarrow> string \<Rightarrow> rat \<Rightarrow> blob option"
  now :: nat
  generateAsync :: "nat \<Rightarrow> zip \<Rightarrow> blob option"

subsection \<open>Admission: \<open>handleDrop\<close> and \<open>handleFileInput\<close>\<close>

definition startsWith :: "string \<Rightarrow> string \<Rightarrow> bool" where
  "startsWith s p = (take (length p) s = p)"

text \<open>The filter of both handlers: \<open>file => file.type.startsWith('image/')\<close>.\<close>

definition is_image_file :: "jsfile \<Rightarrow> bool" where
  "is_image_file f = startsWith (ftype f) ''image/''"

text \<open>The object literal built for each admitted file.\<close>

definition newImage :: "jsfile \<Rightarrow> image" where
  "newImage f = \<lparr>src_file = f, preview = ObjectURL f, name = fname f, originalSize = fsize f\<rparr>"

text \<open>
  The outcome of one admission: the alert shown (if any), the items built by the
  \<open>map\<close> (each one a call of \<open>URL.createObjectURL\<close>), and the image list afterwards.
\<close>

record admission =
  alerted :: "string option"
  created :: "image list"
  images_after :: "image list"

text \<open>
  \<open>handleDrop\<close>: the files of the event (\<open>e.dataTransfer?.files || []\<close>, so a missing
  list is empty), filtered by MIME type; more than 30 of them alert and return, else
  the new items are appended and the list is cut by \<open>slice(0, 30)\<close>.
\<close>

definition handleDrop :: "jsfile list option \<Rightarrow> image list \<Rightarrow> admission" where
  "handleDrop dataTransfer_files prev =
     (let files = (case dataTransfer_files of None \<Rightarrow> [] | Some fs \<Rightarrow> fs);
          imageFiles = filter is_image_file files
      in if length imageFiles > 30
         then \<lparr>alerted = Some ''Maximum 30 images allowed'', created = [], images_after = prev\<rparr>
         else (let newImages = map newImage imageFiles
               in \<lparr>alerted = None, created = newImages,
                   images_after = take 30 (prev @ newImages)\<rparr>))"

text \<open>\<open>handleFileInput\<close>: the same steps on \<open>e.target.files || []\<close>.\<close>

definition handleFileInput :: "jsfile list option \<Rightarrow> image list \<Rightarrow> admission" where
  "handleFileInput target_files prev =
     (let files = (case target_files of None \<Rightarrow> [] | Some fs \<Rightarrow> fs);
          imageFiles = filter is_image_file files
      in if length imageFiles > 30
         then \<lparr>alerted = Some ''Maximum 30 images allowed'', created = [], images_after = prev\<rparr>
         else (let newImages = map newImage imageFiles
               in \<lparr>alerted = None, created = newImages,
                   images_after = take 30 (prev @ newImages)\<rparr>))"

subsection \<open>\<open>resizeImage\<close>\<close>

text \<open>
  The target size computed in \<open>onload\<close> from the state and the loaded image's
  \<open>img.width\<close>, \<open>img.height\<close>: the pair \<open>(targetWidth, targetHeight)\<close>.
\<close>

definition targetSize :: "settings \<Rightarrow> nat \<Rightarrow> nat \<Rightarrow> rat \<times> rat" where
  "targetSize st img_width img_height =
     (if preserveAspectRatio st
      then (let originalAspectRatio = of_nat img_width / of_nat img_height;
                targetAspectRatio = of_nat (width st) / of_nat (height st)
            in if originalAspectRatio > targetAspectRatio
               then (of_nat (width st), of_nat (width st) / originalAspectRatio)
               else (of_nat (height st) * originalAspectRatio, of_nat (height st)))
      else (of_nat (width st), of_nat (height st)))"

text \<open>The canvas after the size is set and the image is drawn.\<close>

definition onload_canvas :: "settings \<Rightarrow> image \<Rightarrow> nat \<Rightarrow> nat \<Rightarrow> canvas" where
  "onload_canvas st im img_width img_height =
     (let (targetWidth, targetHeight) = targetSize st img_width img_height
      in \<lparr>c_width = targetWidth, c_height = targetHeight,
          drawn = (preview im, 0, 0, targetWidth, targetHeight)\<rparr>)"

text \<open>
  The promise of \<open>resizeImage\<close>. Only \<open>onload\<close> resolves it, and there is no \<open>onerror\<close>
  handler: when the image does not load the promise never settles, which is \<open>None\<close>.
\<close>

definition resizeImage :: "browser \<Rightarrow> settings \<Rightarrow> image \<Rightarrow> processed option" where
  "resizeImage env st im =
     (case load env (preview im) of
        None \<Rightarrow> None
      | Some (img_width, img_height) \<Rightarrow>
          Some \<lparr>p_blob = toBlob env (onload_canvas st im img_width img_height)
                            ''image/jpeg'' (85 / 100),
                p_name = name im\<rparr>)"

subsection \<open>\<open>processAndDownload\<close>\<close>

text \<open>
  What happens around one \<open>await resizeImage(...)\<close>: the call on an item, and the value
  its promise resolves with.
\<close>

datatype step = Called image | Resolved processed

text \<open>
  The \<open>for\<close> loop: at index \<open>i\<close> it awaits \<open>resizeImage(images[i])\<close>, pushes the result
  and calls \<open>setProgress(((i + 1) / images.length) * 100)\<close>. The accumulator holds
  \<open>processedImages\<close>, the progress values set so far, and the calls and resolutions in
  the order in which they happen. An await that never settles leaves the whole loop
  pending: \<open>None\<close>.
\<close>

function resize_loop ::
  "browser \<Rightarrow> settings \<Rightarrow> image list \<Rightarrow> nat \<Rightarrow> processed list \<times> rat list \<times> step list
     \<Rightarrow> (processed list \<times> rat list \<times> step list) option" where
  "resize_loop env st images i (processedImages, progress, trace) =
     (if i < length images
      then (case resizeImage env st (images ! i) of
              None \<Rightarrow> None
            | Some p \<Rightarrow>
                resize_loop env st images (i + 1)
                  (processedImages @ [p],
                   progress @ [(of_nat (i + 1) / of_nat (length images)) * 100],
                   trace @ [Called (images ! i), Resolved p]))
      else Some (processedImages, progress, trace))"
  by pat_completeness auto
termination
  by (relation "measure (\<lambda>(env, st, images, i, acc). length images - i)") auto

declare resize_loop.simps [simp del]

text \<open>
  \<open>zip.file(name, data)\<close> of the zip library adds an entry, or updates the entry of that
  name where it stands.
\<close>

fun zip_file :: "string \<Rightarrow> blob option \<Rightarrow> zip \<Rightarrow> zip" where
  "zip_file n b [] = [(n, b)]"
| "zip_file n b (e # es) = (if fst e = n then (n, b) # es else e # zip_file n b es)"

text \<open>The template literal \<open>`resized-${name}`\<close>.\<close>

definition entry_name :: "string \<Rightarrow> string" where
  "entry_name n = ''resized-'' @ n"

text \<open>\<open>processedImages.forEach(({blob, name}) => zip.file(`resized-${name}`, blob))\<close>.\<close>

definition add_all :: "processed list \<Rightarrow> zip \<Rightarrow> zip" where
  "add_all ps z = foldl (\<lambda>z p. zip_file (entry_name (p_name p)) (p_blob p) z) z ps"

text \<open>
  What one run leaves behind: every value given to \<open>setProgress\<close> in order, the last
  value given to \<open>setIsProcessing\<close>, the results of the loop, the calls and resolutions
  of the loop in order, the entries of the archive when it is serialised, the download
  triggered (file name and content) and the alert of the \<open>catch\<close> branch.
\<close>

record run =
  progress_log :: "rat list"
  isProcessing :: bool
  processedImages :: "processed list"
  resize_trace :: "step list"
  archive :: zip
  download :: "(string \<times> blob) option"
  alert_msg :: "string option"

text \<open>
  \<open>processAndDownload\<close>: \<open>setProgress(0)\<close>, the loop, the archive, the download; a
  rejected serialisation goes to \<open>catch\<close>; \<open>finally\<close> sets the progress back to 0.
  \<open>None\<close> when the loop never finishes. The dynamic import of the zip library is taken
  to succeed.
\<close>

definition processAndDownload :: "browser \<Rightarrow> settings \<Rightarrow> image list \<Rightarrow> run option" where
  "processAndDownload env st images =
     (case resize_loop env st images 0 ([], [0], []) of
        None \<Rightarrow> None
      | Some (ps, progress, trace) \<Rightarrow>
          (let z = add_all ps [] in
           case generateAsync env (now env) z of
             None \<Rightarrow>
               Some \<lparr>progress_log = progress @ [0], isProcessing = False,
                     processedImages = ps, resize_trace = trace, archive = z,
                     download = None,
                     alert_msg = Some ''Error processing images. Please try again.''\<rparr>
           | Some content \<Rightarrow>
               Some \<lparr>progress_log = progress @ [0], isProcessing = False,
                     processedImages = ps, resize_trace = trace, archive = z,
                     download = Some (''resized-images.zip'', content),
                     alert_msg = None\<rparr>))"

text \<open>
  An item counts as transcoded when its promise resolves with a blob that is not null.
\<close>

definition transcoded :: "browser \<Rightarrow> settings \<Rightarrow> image \<Rightarrow> bool" where
  "transcoded env st im =
     (case resizeImage env st im of None \<Rightarrow> False | Some p \<Rightarrow> p_blob p \<noteq> None)"

subsection \<open>The rounding the specification asks for\<close>

text \<open>
  Round half up, with a minimum of 1: written from the specification, to be compared
  with what \<open>onload_canvas\<close> really hands to the canvas.
\<close>

definition spec_round_half_up_min1 :: "rat \<Rightarrow> int" where
  "spec_round_half_up_min1 x = max 1 \<lfloor>x + 1 / 2\<rfloor>"

subsection \<open>Sample inputs\<close>

text \<open>
  A small browser for concrete runs. A file's content starts with the width and the
  height of its raster; shorter content does not decode. Encoding a canvas with a side
  below one pixel gives null, as for a canvas with no pixels; otherwise the blob is the
  content of the drawn file. Serialising writes, for each entry, the date it was
  stamped with and then its blob. The date read while the archive is filled is the
  parameter.
\<close>

definition browser_at :: "nat \<Rightarrow> browser" where
  "browser_at date =
     \<lparr>load = (\<lambda>u. case u of ObjectURL f \<Rightarrow>
                (case fdata f of w # h # rest \<Rightarrow> Some (w, h) | _ \<Rightarrow> None)),
      toBlob = (\<lambda>c t q. if c_width c < 1 \<or> c_height c < 1 then None
                else (case fst (drawn c) of ObjectURL f \<Rightarrow> Some (fdata f))),
      now = date,
      generateAsync = (\<lambda>d z. Some (concat
                         (map (\<lambda>e. d # (case snd e of None \<Rightarrow> [] | Some b \<Rightarrow> b)) z)))\<rparr>"

definition sample_browser :: browser where
  "sample_browser = browser_at 10"

definition png_file :: "string \<Rightarrow> nat \<Rightarrow> nat \<Rightarrow> jsfile" where
  "png_file n w h = \<lparr>fname = n, ftype = ''image/png'', fsize = 3, fdata = [w, h, 7]\<rparr>"

definition corrupt_png :: "string \<Rightarrow> jsfile" where
  "corrupt_png n = \<lparr>fname = n, ftype = ''image/png'', fsize = 1, fdata = [9]\<rparr>"

definition plain_file :: "string \<Rightarrow> jsfile" where
  "plain_file n = \<lparr>fname = n, ftype = ''text/plain'', fsize = 2, fdata = [1, 2]\<rparr>"

definition box :: "nat \<Rightarrow> nat \<Rightarrow> bool \<Rightarrow> settings" where
  "box w h keep = \<lparr>width = w, height = h, preserveAspectRatio = keep\<rparr>"

section \<open>Auxiliary facts\<close>

lemma resize_loop_eq:
  "resize_loop env st images i (ps, pr, tr) =
     (if \<forall>im \<in> set (drop i images). resizeImage env st im \<noteq> None
      then Some (ps @ map (\<lambda>im. the (resizeImage env st im)) (drop i images),
                 pr @ map (\<lambda>k. (of_nat (k + 1) / of_nat (length images)) * 100) [i..<length images],
                 tr @ concat (map (\<lambda>im. [Called im, Resolved (the (resizeImage env st im))])
                                (drop i images)))
      else None)"
proof (induction "length images - i" arbitrary: i ps pr tr)
  case 0
  then show ?case by (simp add: resize_loop.simps)
next
  case (Suc k)
  then have lt: "i < length images" by simp
  then have d: "drop i images = images ! i # drop (Suc i) images"
    by (simp add: Cons_nth_drop_Suc)
  from lt have u: "[i..<length images] = i # [Suc i..<length images]"
    by (simp add: upt_conv_Cons)
  from Suc.hyps(2) have k: "k = length images - Suc i" by simp
  show ?case
  proof (cases "resizeImage env st (images ! i)")
    case None
    with lt d show ?thesis by (simp add: resize_loop.simps)
  next
    case (Some p)
    from lt Some have "resize_loop env st images i (ps, pr, tr) =
        resize_loop env st images (Suc i)
          (ps @ [p], pr @ [(of_nat (i + 1) / of_nat (length images)) * 100],
           tr @ [Called (images ! i), Resolved p])"
      by (subst resize_loop.simps) simp
    with Suc.hyps(1) [OF k] Some d u show ?thesis
      by simp
  qed
qed

lemma zip_file_keys:
  "map fst (zip_file n b z) = (if n \<in> set (map fst z) then map fst z else map fst z @ [n])"
  by (induction z) auto

lemma zip_file_fresh: "n \<notin> fst ` set z \<Longrightarrow> zip_file n b z = z @ [(n, b)]"
  by (induction z) auto

lemma add_all_Nil: "add_all [] z = z"
  by (simp add: add_all_def)

lemma add_all_Cons:
  "add_all (p # ps) z = add_all ps (zip_file (entry_name (p_name p)) (p_blob p) z)"
  by (simp add: add_all_def)

lemma add_all_distinct:
  "distinct (map fst z @ map (\<lambda>p. entry_name (p_name p)) ps) \<Longrightarrow>
     add_all ps z = z @ map (\<lambda>p. (entry_name (p_name p), p_blob p)) ps"
proof (induction ps arbitrary: z)
  case Nil
  then show ?case by (simp add: add_all_Nil)
next
  case (Cons p ps)
  from Cons.prems have fresh: "entry_name (p_name p) \<notin> fst ` set z"
    by auto
  have "distinct (map fst (z @ [(entry_name (p_name p), p_blob p)]) @
          map (\<lambda>p. entry_name (p_name p)) ps)"
    using Cons.prems by auto
  from Cons.IH [OF this] fresh show ?case
    by (simp add: add_all_Cons zip_file_fresh)
qed


lemma handleFileInput_eq: "handleFileInput fs prev = handleDrop fs prev"
  by (simp add: handleFileInput_def handleDrop_def)

lemma is_image_png: "is_image_file (png_file n w h)"
  by (simp add: is_image_file_def startsWith_def png_file_def)

lemma not_image_plain: "\<not> is_image_file (plain_file n)"
  by (simp add: is_image_file_def startsWith_def plain_file_def)

lemma targetSize_pos:
  assumes "0 < img_width" and "0 < img_height" and "0 < width st" and "0 < height st"
  shows "0 < fst (targetSize st img_width img_height) \<and> 0 < snd (targetSize st img_width img_height)"
  using assms by (simp add: targetSize_def Let_def)

lemma resizeImage_None_iff: "resizeImage env st im = None \<longleftrightarrow> load env (preview im) = None"
  by (simp add: resizeImage_def split: option.splits)

lemma resizeImage_name: "resizeImage env st im = Some p \<Longrightarrow> p_name p = name im"
  by (auto simp add: resizeImage_def split: option.splits)

lemma processAndDownload_None:
  assumes "im \<in> set images" and "resizeImage env st im = None"
  shows "processAndDownload env st images = None"
  using assms by (auto simp add: processAndDownload_def resize_loop_eq)

lemma processAndDownload_Some:
  assumes "\<forall>im \<in> set images. resizeImage env st im \<noteq> None"
  shows "\<exists>r. processAndDownload env st images = Some r"
  using assms by (simp add: processAndDownload_def resize_loop_eq Let_def split: option.splits)

lemma processAndDownload_SomeD:
  assumes "processAndDownload env st images = Some r"
  shows "\<forall>im \<in> set images. resizeImage env st im \<noteq> None"
    and "processedImages r = map (\<lambda>im. the (resizeImage env st im)) images"
    and "progress_log r =
           0 # map (\<lambda>k. (of_nat (k + 1) / of_nat (length images)) * 100) [0..<length images] @ [0]"
    and "archive r = add_all (processedImages r) []"
    and "isProcessing r = False"
    and "resize_trace r =
           concat (map (\<lambda>im. [Called im, Resolved (the (resizeImage env st im))]) images)"
  using assms
  by (auto simp add: processAndDownload_def resize_loop_eq Let_def split: option.splits if_splits)

lemma percent_sorted:
  "sorted (map (\<lambda>k. (rat_of_nat (k + 1) / rat_of_nat n) * 100) [0..<n])"
  by (auto simp add: sorted_iff_nth_mono divide_right_mono)

lemma percent_bounds:
  assumes "k < n"
  shows "0 < (rat_of_nat (k + 1) / rat_of_nat n) * 100 \<and> (rat_of_nat (k + 1) / rat_of_nat n) * 100 \<le> 100"
proof -
  from assms have n: "0 < rat_of_nat n" by simp
  from assms have "k + 1 \<le> n" by simp
  then have "rat_of_nat (k + 1) \<le> rat_of_nat n"
    by (simp only: of_nat_le_iff)
  with n have le: "rat_of_nat (k + 1) / rat_of_nat n \<le> 1"
    by (simp add: divide_le_eq)
  from n have pos: "0 < rat_of_nat (k + 1) / rat_of_nat n"
    by (simp add: zero_less_divide_iff del: of_nat_Suc of_nat_add)
  have scale: "0 < x \<Longrightarrow> x \<le> 1 \<Longrightarrow> 0 < x * 100 \<and> x * 100 \<le> 100" for x :: rat
    by simp
  from scale [OF pos le] show ?thesis .
qed

lemmas sample_defs =
  processAndDownload_def resize_loop_eq resizeImage_def onload_canvas_def targetSize_def
  add_all_def entry_name_def sample_browser_def browser_at_def newImage_def png_file_def corrupt_png_def box_def Let_def

lemma run_one:
  "processAndDownload sample_browser (box 800 600 True) [newImage (png_file ''a.png'' 400 300)] =
     Some \<lparr>progress_log = [0, 100, 0], isProcessing = False,
           processedImages = [\<lparr>p_blob = Some [400, 300, 7], p_name = ''a.png''\<rparr>],
           resize_trace = [Called (newImage (png_file ''a.png'' 400 300)),
                           Resolved \<lparr>p_blob = Some [400, 300, 7], p_name = ''a.png''\<rparr>],
           archive = [(''resized-a.png'', Some [400, 300, 7])],
           download = Some (''resized-images.zip'', [10, 400, 300, 7]),
           alert_msg = None\<rparr>"
  by (simp add: sample_defs)

lemma run_two:
  "processAndDownload sample_browser (box 800 600 True)
     [newImage (png_file ''a.png'' 400 300), newImage (png_file ''b.png'' 400 300)] =
     Some \<lparr>progress_log = [0, 50, 100, 0], isProcessing = False,
           processedImages = [\<lparr>p_blob = Some [400, 300, 7], p_name = ''a.png''\<rparr>,
                              \<lparr>p_blob = Some [400, 300, 7], p_name = ''b.png''\<rparr>],
           resize_trace = [Called (newImage (png_file ''a.png'' 400 300)),
                           Resolved \<lparr>p_blob = Some [400, 300, 7], p_name = ''a.png''\<rparr>,
                           Called (newImage (png_file ''b.png'' 400 300)),
                           Resolved \<lparr>p_blob = Some [400, 300, 7], p_name = ''b.png''\<rparr>],
           archive = [(''resized-a.png'', Some [400, 300, 7]), (''resized-b.png'', Some [400, 300, 7])],
           download = Some (''resized-images.zip'', [10, 400, 300, 7, 10, 400, 300, 7]),
           alert_msg = None\<rparr>"
  by (simp add: sample_defs upt_conv_Cons)


lemma run_same_name:
  "processAndDownload sample_browser (box 800 600 True)
     [newImage (png_file ''a.png'' 400 300), newImage (png_file ''a.png'' 20 10)] =
     Some \<lparr>progress_log = [0, 50, 100, 0], isProcessing = False,
           processedImages = [\<lparr>p_blob = Some [400, 300, 7], p_name = ''a.png''\<rparr>,
                              \<lparr>p_blob = Some [20, 10, 7], p_name = ''a.png''\<rparr>],
           resize_trace = [Called (newImage (png_file ''a.png'' 400 300)),
                           Resolved \<lparr>p_blob = Some [400, 300, 7], p_name = ''a.png''\<rparr>,
                           Called (newImage (png_file ''a.png'' 20 10)),
                           Resolved \<lparr>p_blob = Some [20, 10, 7], p_name = ''a.png''\<rparr>],
           archive = [(''resized-a.png'', Some [20, 10, 7])],
           download = Some (''resized-images.zip'', [10, 20, 10, 7]),
           alert_msg = None\<rparr>"
  by (simp add: sample_defs upt_conv_Cons)



lemma run_thin_alone:
  "processAndDownload sample_browser (box 100 100 True) [newImage (png_file ''thin.png'' 1 2000)] =
     Some \<lparr>progress_log = [0, 100, 0], isProcessing = False,
           processedImages = [\<lparr>p_blob = None, p_name = ''thin.png''\<rparr>],
           resize_trace = [Called (newImage (png_file ''thin.png'' 1 2000)),
                           Resolved \<lparr>p_blob = None, p_name = ''thin.png''\<rparr>],
           archive = [(''resized-thin.png'', None)],
           download = Some (''resized-images.zip'', [10]),
           alert_msg = None\<rparr>"
  by (simp add: sample_defs)

lemma processed_names:
  assumes "processAndDownload env st images = Some r"
  shows "map p_name (processedImages r) = map name images"
proof -
  have "p_name (the (resizeImage env st im)) = name im" if "im \<in> set images" for im
  proof -
    from processAndDownload_SomeD(1) [OF assms] that
    obtain p where "resizeImage env st im = Some p" by auto
    with resizeImage_name [OF this] show ?thesis by simp
  qed
  then show ?thesis
    by (simp add: processAndDownload_SomeD(2) [OF assms])
qed

lemma entry_names:
  assumes "processAndDownload env st images = Some r"
  shows "map (\<lambda>p. entry_name (p_name p)) (processedImages r) =
         map (\<lambda>im. entry_name (name im)) images"
proof -
  have "map (\<lambda>p. entry_name (p_name p)) (processedImages r) =
        map entry_name (map p_name (processedImages r))"
    by simp
  also have "\<dots> = map entry_name (map name images)"
    by (simp only: processed_names [OF assms])
  finally show ?thesis by simp
qed

lemma inj_entry_name: "inj entry_name"
  by (simp add: inj_on_def entry_name_def)

lemma archive_distinct:
  assumes "processAndDownload env st images = Some r" and "distinct (map name images)"
  shows "archive r =
         map (\<lambda>im. (entry_name (name im), p_blob (the (resizeImage env st im)))) images"
proof -
  have "distinct (map entry_name (map name images))"
    using assms(2) inj_entry_name by (simp only: distinct_map) (simp add: inj_on_def)
  then have "distinct (map (\<lambda>p. entry_name (p_name p)) (processedImages r))"
    by (simp add: entry_names [OF assms(1)] comp_def)
  then have "add_all (processedImages r) [] =
      map (\<lambda>p. (entry_name (p_name p), p_blob p)) (processedImages r)"
    using add_all_distinct [of "[]" "processedImages r"] by simp
  also have "\<dots> = map (\<lambda>im. (entry_name (p_name (the (resizeImage env st im))),
                               p_blob (the (resizeImage env st im)))) images"
    by (simp add: processAndDownload_SomeD(2) [OF assms(1)] comp_def)
  also have "\<dots> = map (\<lambda>im. (entry_name (name im), p_blob (the (resizeImage env st im)))) images"
  proof -
    have "p_name (the (resizeImage env st im)) = name im" if "im \<in> set images" for im
    proof -
      from processAndDownload_SomeD(1) [OF assms(1)] that
      obtain p where "resizeImage env st im = Some p" by auto
      with resizeImage_name [OF this] show ?thesis by simp
    qed
    then show ?thesis by simp
  qed
  finally show ?thesis
    by (simp only: processAndDownload_SomeD(4) [OF assms(1)])
qed

lemma add_all_subseq:
  "subseq (map fst (add_all ps z)) (map fst z @ map (\<lambda>p. entry_name (p_name p)) ps)"
proof (induction ps arbitrary: z)
  case Nil
  then show ?case by (simp add: add_all_Nil)
next
  case (Cons p ps)
  let ?n = "entry_name (p_name p)"
  let ?rest = "map (\<lambda>p. entry_name (p_name p)) ps"
  have step: "subseq (map fst (zip_file ?n (p_blob p) z) @ ?rest) (map fst z @ ?n # ?rest)"
  proof (cases "?n \<in> set (map fst z)")
    case True
    have "subseq (map fst z @ ?rest) (map fst z @ ?n # ?rest)"
      by (simp only: subseq_append') (rule list_emb_Cons, rule subseq_order.refl)
    with True show ?thesis by (simp only: zip_file_keys if_True)
  next
    case False
    then show ?thesis by (simp only: zip_file_keys if_False) simp
  qed
  from Cons.IH [of "zip_file ?n (p_blob p) z"] step
  have "subseq (map fst (add_all ps (zip_file ?n (p_blob p) z))) (map fst z @ ?n # ?rest)"
    by (rule subseq_order.trans)
  then show ?case by (simp add: add_all_Cons)
qed

lemma run_dup3:
  "processAndDownload sample_browser (box 800 600 True)
     [newImage (png_file ''a.png'' 400 300), newImage (png_file ''b.png'' 400 300),
      newImage (png_file ''a.png'' 20 10)] =
     Some \<lparr>progress_log = [0, 100 / 3, 200 / 3, 100, 0], isProcessing = False,
           processedImages = [\<lparr>p_blob = Some [400, 300, 7], p_name = ''a.png''\<rparr>,
                              \<lparr>p_blob = Some [400, 300, 7], p_name = ''b.png''\<rparr>,
                              \<lparr>p_blob = Some [20, 10, 7], p_name = ''a.png''\<rparr>],
           resize_trace = [Called (newImage (png_file ''a.png'' 400 300)),
                           Resolved \<lparr>p_blob = Some [400, 300, 7], p_name = ''a.png''\<rparr>,
                           Called (newImage (png_file ''b.png'' 400 300)),
                           Resolved \<lparr>p_blob = Some [400, 300, 7], p_name = ''b.png''\<rparr>,
                           Called (newImage (png_file ''a.png'' 20 10)),
                           Resolved \<lparr>p_blob = Some [20, 10, 7], p_name = ''a.png''\<rparr>],
           archive = [(''resized-a.png'', Some [20, 10, 7]), (''resized-b.png'', Some [400, 300, 7])],
           download = Some (''resized-images.zip'', [10, 20, 10, 7, 10, 400, 300, 7]),
           alert_msg = None\<rparr>"
  by (simp add: sample_defs upt_conv_Cons)

lemma run_three:
  "processAndDownload sample_browser (box 100 100 True)
     [newImage (png_file ''a.png'' 400 300), newImage (png_file ''thin.png'' 1 2000),
      newImage (png_file ''c.png'' 30 30)] =
     Some \<lparr>progress_log = [0, 100 / 3, 200 / 3, 100, 0], isProcessing = False,
           processedImages = [\<lparr>p_blob = Some [400, 300, 7], p_name = ''a.png''\<rparr>,
                              \<lparr>p_blob = None, p_name = ''thin.png''\<rparr>,
                              \<lparr>p_blob = Some [30, 30, 7], p_name = ''c.png''\<rparr>],
           resize_trace = [Called (newImage (png_file ''a.png'' 400 300)),
                           Resolved \<lparr>p_blob = Some [400, 300, 7], p_name = ''a.png''\<rparr>,
                           Called (newImage (png_file ''thin.png'' 1 2000)),
                           Resolved \<lparr>p_blob = None, p_name = ''thin.png''\<rparr>,
                           Called (newImage (png_file ''c.png'' 30 30)),
                           Resolved \<lparr>p_blob = Some [30, 30, 7], p_name = ''c.png''\<rparr>],
           archive = [(''resized-a.png'', Some [400, 300, 7]), (''resized-thin.png'', None),
                      (''resized-c.png'', Some [30, 30, 7])],
           download = Some (''resized-images.zip'', [10, 400, 300, 7, 10, 10, 30, 30, 7]),
           alert_msg = None\<rparr>"
  by (simp add: sample_defs upt_conv_Cons)

lemma trace_zip:
  assumes "processAndDownload env st images = Some r"
  shows "resize_trace r =
         concat (map (\<lambda>(im, p). [Called im, Resolved p]) (zip images (processedImages r)))"
proof -
  have "zip images (map (\<lambda>im. the (resizeImage env st im)) images) =
        map (\<lambda>im. (im, the (resizeImage env st im))) images"
    by (induction images) simp_all
  then show ?thesis
    by (simp add: processAndDownload_SomeD(2,6) [OF assms] comp_def)
qed

section \<open>Properties\<close>

subsection \<open>Target size\<close>

text \<open>
  C1. With \<open>preserveAspectRatio\<close> on and an original of positive width and height (the
  target sides positive too), the planned size follows the comparison of the two
  ratios: an original that is relatively wider than the box gets the target width and
  the height \<open>width / originalAspectRatio\<close>; any other original gets the target height
  and the width \<open>height * originalAspectRatio\<close>.
\<close>

theorem C1_preserved_ratio:
  assumes "preserveAspectRatio st"
    and "0 < img_width" and "0 < img_height"
    and "0 < width st" and "0 < height st"
  shows "(rat_of_nat img_width / rat_of_nat img_height > rat_of_nat (width st) / rat_of_nat (height st) \<longrightarrow>
            fst (targetSize st img_width img_height) = rat_of_nat (width st) \<and>
            snd (targetSize st img_width img_height) =
              rat_of_nat (width st) / (rat_of_nat img_width / rat_of_nat img_height)) \<and>
         (\<not> rat_of_nat img_width / rat_of_nat img_height > rat_of_nat (width st) / rat_of_nat (height st) \<longrightarrow>
            snd (targetSize st img_width img_height) = rat_of_nat (height st) \<and>
            fst (targetSize st img_width img_height) =
              rat_of_nat (height st) * (rat_of_nat img_width / rat_of_nat img_height))"
  using assms(1) by (simp add: targetSize_def Let_def)

text \<open>
  The specification's scenario (a 400 by 300 original in an 800 by 600 box), a wider
  original and a narrower one.
\<close>

theorem C1_preserved_ratio_witness:
  "targetSize (box 800 600 True) 400 300 = (800, 600) \<and>
   targetSize (box 800 600 True) 1000 500 = (800, 400) \<and>
   targetSize (box 800 600 True) 300 700 = (1800 / 7, 600)"
  using C1_preserved_ratio [of "box 800 600 True" 400 300]
    C1_preserved_ratio [of "box 800 600 True" 1000 500]
    C1_preserved_ratio [of "box 800 600 True" 300 700]
  by (simp add: box_def prod_eq_iff)

text \<open>
  C2. With \<open>preserveAspectRatio\<close> off, the planned size is the requested width and
  height, whatever the size of the original.
\<close>

theorem C2_exact_box:
  "\<not> preserveAspectRatio st \<longrightarrow>
     targetSize st img_width img_height = (of_nat (width st), of_nat (height st))"
  by (simp add: targetSize_def)

theorem C2_exact_box_witness:
  "\<not> preserveAspectRatio (box 800 600 False) \<and>
   targetSize (box 800 600 False) 4000 10 = (800, 600)"
  using C2_exact_box [of "box 800 600 False" 4000 10] by (simp add: box_def)

text \<open>
  C6, as the code has it. The planned width and height are used as computed, with no
  rounding and no minimum: the values assigned to the canvas and handed to \<open>drawImage\<close>
  are the planned ones themselves. For positive originals and targets they are
  positive, but they need not be whole numbers and need not reach 1.
\<close>

theorem C6_unrounded:
  assumes "0 < img_width" and "0 < img_height" and "0 < width st" and "0 < height st"
  shows "c_width (onload_canvas st im img_width img_height) = fst (targetSize st img_width img_height) \<and>
         c_height (onload_canvas st im img_width img_height) = snd (targetSize st img_width img_height) \<and>
         drawn (onload_canvas st im img_width img_height) =
           (preview im, 0, 0, fst (targetSize st img_width img_height),
            snd (targetSize st img_width img_height)) \<and>
         0 < c_width (onload_canvas st im img_width img_height) \<and>
         0 < c_height (onload_canvas st im img_width img_height)"
  using targetSize_pos [OF assms] by (simp add: onload_canvas_def split_beta)

theorem C6_unrounded_witness:
  "c_width (onload_canvas (box 800 600 True) (newImage (png_file ''a.png'' 300 700)) 300 700) = 1800 / 7 \<and>
   c_height (onload_canvas (box 800 600 True) (newImage (png_file ''a.png'' 300 700)) 300 700) = 600"
  using C6_unrounded [of 300 700 "box 800 600 True" "newImage (png_file ''a.png'' 300 700)"]
  by (simp add: box_def targetSize_def)

text \<open>
  C6 as stated fails. A 300 by 700 original in an 800 by 600 box is drawn 1800/7 wide,
  which is not a whole number (rounding half up would give 257); a 1 by 2000 original
  in a 100 by 100 box is drawn 1/20 wide, below 1.
\<close>

theorem C6_rounding_counterexample:
  "c_width (onload_canvas (box 800 600 True) (newImage (png_file ''a.png'' 300 700)) 300 700) = 1800 / 7 \<and>
   (1800 / 7 :: rat) \<notin> \<int> \<and>
   of_int (spec_round_half_up_min1 (fst (targetSize (box 800 600 True) 300 700))) = (257 :: rat) \<and>
   c_width (onload_canvas (box 100 100 True) (newImage (png_file ''b.png'' 1 2000)) 1 2000) = 1 / 20 \<and>
   drawn (onload_canvas (box 100 100 True) (newImage (png_file ''b.png'' 1 2000)) 1 2000) =
     (ObjectURL (png_file ''b.png'' 1 2000), 0, 0, 1 / 20, 100) \<and>
   \<not> (1 \<le> (1 / 20 :: rat))"
proof -
  have "(1800 / 7 :: rat) \<notin> \<int>"
  proof
    assume "(1800 / 7 :: rat) \<in> \<int>"
    then obtain n :: int where "(1800 / 7 :: rat) = of_int n"
      by (rule Ints_cases)
    then have "rat_of_int 1800 = rat_of_int (7 * n)" by simp
    then have "1800 = 7 * n" by (simp only: of_int_eq_iff)
    then show False by presburger
  qed
  moreover have "\<lfloor>3607 / 14 :: rat\<rfloor> = 257"
    by (rule floor_unique) simp_all
  ultimately show ?thesis
    by (simp add: onload_canvas_def targetSize_def box_def newImage_def spec_round_half_up_min1_def)
qed

subsection \<open>Admission\<close>

text \<open>
  C3, as the code has it. An input with more than 30 files of an image type is rejected
  by both handlers: an alert, no item created, the list unchanged. An input with at most
  30 of them is admitted without an alert: one item is created for each image file, the
  items are appended to the list, and the list is cut to its first 30 items; so a list
  of at most 30 items never grows beyond 30.
\<close>

theorem C3_admission_cap:
  "(30 < length (filter is_image_file files) \<longrightarrow>
      handleDrop (Some files) prev =
        \<lparr>alerted = Some ''Maximum 30 images allowed'', created = [], images_after = prev\<rparr> \<and>
      handleFileInput (Some files) prev =
        \<lparr>alerted = Some ''Maximum 30 images allowed'', created = [], images_after = prev\<rparr>) \<and>
   (length (filter is_image_file files) \<le> 30 \<longrightarrow>
      alerted (handleDrop (Some files) prev) = None \<and>
      created (handleDrop (Some files) prev) = map newImage (filter is_image_file files) \<and>
      images_after (handleDrop (Some files) prev) =
        take 30 (prev @ created (handleDrop (Some files) prev)) \<and>
      handleFileInput (Some files) prev = handleDrop (Some files) prev) \<and>
   (length prev \<le> 30 \<longrightarrow>
      length (images_after (handleDrop (Some files) prev)) \<le> 30 \<and>
      length (images_after (handleFileInput (Some files) prev)) \<le> 30)"
  by (auto simp add: handleDrop_def handleFileInput_def Let_def)

theorem C3_admission_cap_witness:
  "30 < length (filter is_image_file (replicate 31 (png_file ''a.png'' 400 300))) \<and>
   handleDrop (Some (replicate 31 (png_file ''a.png'' 400 300))) [] =
     \<lparr>alerted = Some ''Maximum 30 images allowed'', created = [], images_after = []\<rparr> \<and>
   length (filter is_image_file [png_file ''a.png'' 400 300, plain_file ''notes.txt'']) \<le> 30 \<and>
   images_after (handleFileInput (Some [png_file ''a.png'' 400 300, plain_file ''notes.txt'']) []) =
     [newImage (png_file ''a.png'' 400 300)] \<and>
   length (images_after (handleDrop (Some [png_file ''a.png'' 400 300, plain_file ''notes.txt'']) [])) \<le> 30"
  using C3_admission_cap [of "replicate 31 (png_file ''a.png'' 400 300)" "[]"]
    C3_admission_cap [of "[png_file ''a.png'' 400 300, plain_file ''notes.txt'']" "[]"]
  by (simp add: is_image_png not_image_plain)

text \<open>
  C3 as stated fails. An input of 31 files, 30 of them images, is not rejected: 30 items
  are admitted without an alert. And 30 images dropped onto a list that holds one item
  are all created, and the 31 items are cut to 30 without an alert.
\<close>

theorem C3_reject_counterexample:
  "30 < length (replicate 30 (png_file ''a.png'' 400 300) @ [plain_file ''notes.txt'']) \<and>
   alerted (handleDrop (Some (replicate 30 (png_file ''a.png'' 400 300) @ [plain_file ''notes.txt''])) []) = None \<and>
   length (images_after (handleDrop (Some (replicate 30 (png_file ''a.png'' 400 300) @ [plain_file ''notes.txt''])) [])) = 30 \<and>
   alerted (handleDrop (Some (replicate 30 (png_file ''a.png'' 400 300))) [newImage (png_file ''z.png'' 10 10)]) = None \<and>
   length (created (handleDrop (Some (replicate 30 (png_file ''a.png'' 400 300))) [newImage (png_file ''z.png'' 10 10)])) = 30 \<and>
   length (images_after (handleDrop (Some (replicate 30 (png_file ''a.png'' 400 300))) [newImage (png_file ''z.png'' 10 10)])) = 30"
  by (simp add: handleDrop_def Let_def is_image_png not_image_plain)

text \<open>
  C10. Only files whose MIME type starts with \<open>image/\<close> are admitted. Both handlers
  treat an input exactly as they treat its image files alone, so the other files are
  gone before the count is compared with 30; every created item comes from a file of
  the input whose type starts with \<open>image/\<close>; and the list afterwards holds nothing
  but earlier items and created ones.
\<close>

theorem C10_only_images:
  "handleDrop (Some files) prev = handleDrop (Some (filter is_image_file files)) prev \<and>
   handleFileInput (Some files) prev = handleFileInput (Some (filter is_image_file files)) prev \<and>
   (\<forall>im \<in> set (created (handleDrop (Some files) prev)).
      src_file im \<in> set files \<and> startsWith (ftype (src_file im)) ''image/'') \<and>
   (\<forall>im \<in> set (created (handleFileInput (Some files) prev)).
      src_file im \<in> set files \<and> startsWith (ftype (src_file im)) ''image/'') \<and>
   set (images_after (handleDrop (Some files) prev))
     \<subseteq> set prev \<union> set (created (handleDrop (Some files) prev)) \<and>
   set (images_after (handleFileInput (Some files) prev))
     \<subseteq> set prev \<union> set (created (handleFileInput (Some files) prev))"
proof -
  have sub: "set (take 30 (prev @ xs)) \<subseteq> set prev \<union> set xs" for xs :: "image list"
    using set_take_subset [of 30 "prev @ xs"] by simp
  have mem: "\<forall>im \<in> set (created (handleDrop (Some files) prev)).
      src_file im \<in> set files \<and> startsWith (ftype (src_file im)) ''image/''"
    by (auto simp add: handleDrop_def Let_def newImage_def is_image_file_def)
  have inc: "set (images_after (handleDrop (Some files) prev))
     \<subseteq> set prev \<union> set (created (handleDrop (Some files) prev))"
    using sub [of "map newImage (filter is_image_file files)"] set_take_subset [of 30 prev]
    by (simp add: handleDrop_def Let_def del: take_append)
  have same: "handleDrop (Some files) prev = handleDrop (Some (filter is_image_file files)) prev"
    by (simp add: handleDrop_def Let_def)
  from mem inc same show ?thesis
    by (simp only: handleFileInput_eq)
qed

theorem C10_only_images_witness:
  "created (handleDrop (Some [png_file ''a.png'' 400 300, plain_file ''notes.txt'', png_file ''b.png'' 20 10]) []) =
     [newImage (png_file ''a.png'' 400 300), newImage (png_file ''b.png'' 20 10)] \<and>
   images_after (handleDrop (Some [png_file ''a.png'' 400 300, plain_file ''notes.txt'', png_file ''b.png'' 20 10]) []) =
     [newImage (png_file ''a.png'' 400 300), newImage (png_file ''b.png'' 20 10)] \<and>
   startsWith (ftype (src_file (newImage (png_file ''a.png'' 400 300)))) ''image/''"
proof -
  have e: "filter is_image_file [png_file ''a.png'' 400 300, plain_file ''notes.txt'', png_file ''b.png'' 20 10]
      = [png_file ''a.png'' 400 300, png_file ''b.png'' 20 10]"
    by (simp add: is_image_png not_image_plain)
  have c: "created (handleDrop (Some [png_file ''a.png'' 400 300, png_file ''b.png'' 20 10]) []) =
     [newImage (png_file ''a.png'' 400 300), newImage (png_file ''b.png'' 20 10)]"
    by (simp add: handleDrop_def Let_def is_image_png)
  have i: "images_after (handleDrop (Some [png_file ''a.png'' 400 300, png_file ''b.png'' 20 10]) []) =
     [newImage (png_file ''a.png'' 400 300), newImage (png_file ''b.png'' 20 10)]"
    by (simp add: handleDrop_def Let_def is_image_png)
  from C10_only_images [of "[png_file ''a.png'' 400 300, plain_file ''notes.txt'', png_file ''b.png'' 20 10]" "[]"]
  show ?thesis
    by (simp only: e c i) (simp add: newImage_def png_file_def startsWith_def)
qed

subsection \<open>The run\<close>

text \<open>
  C4, as the code has it. A run on a non-empty batch that comes to its end sets the
  progress to 0, then after item \<open>k\<close> of \<open>n\<close> to the percentage \<open>(k / n) * 100\<close>, and at
  the very end (\<open>finally\<close>) back to 0. The percentages lie in the interval from 0 to
  100, never decrease, and the last of them is exactly 100.
\<close>

theorem C4_progress_percent:
  assumes "processAndDownload env st images = Some r" and "images \<noteq> []"
  shows "\<exists>vs. progress_log r = 0 # vs @ [0] \<and> length vs = length images \<and>
           (\<forall>k < length images. vs ! k = (rat_of_nat (k + 1) / rat_of_nat (length images)) * 100) \<and>
           (\<forall>v \<in> set vs. 0 < v \<and> v \<le> 100) \<and> sorted (0 # vs) \<and> last vs = 100"
proof -
  let ?n = "length images"
  let ?vs = "map (\<lambda>k. (rat_of_nat (k + 1) / rat_of_nat ?n) * 100) [0..<?n]"
  from assms(2) have n: "0 < ?n" by simp
  have log: "progress_log r = 0 # ?vs @ [0]"
    using processAndDownload_SomeD(3) [OF assms(1)] .
  have len: "length ?vs = ?n" by simp
  have nth: "\<forall>k < ?n. ?vs ! k = (rat_of_nat (k + 1) / rat_of_nat ?n) * 100"
    by simp
  have bnd: "\<forall>v \<in> set ?vs. 0 < v \<and> v \<le> 100"
  proof
    fix v
    assume "v \<in> set ?vs"
    then obtain k where "k < ?n" and "v = (rat_of_nat (k + 1) / rat_of_nat ?n) * 100"
      by auto
    with percent_bounds [of k ?n] show "0 < v \<and> v \<le> 100"
      by (simp only:)
  qed
  have srt: "sorted (0 # ?vs)"
    using percent_sorted [of ?n] bnd by (auto simp add: less_imp_le)
  from n have "[0..<?n] = [0..<?n - 1] @ [?n - 1]"
    by (metis Suc_diff_1 upt_Suc_append zero_le)
  then have "last ?vs = (rat_of_nat (?n - 1 + 1) / rat_of_nat ?n) * 100"
    by (metis (no_types, lifting) last_snoc map_append list.simps(8,9))
  with n have lst: "last ?vs = 100" by simp
  from log len nth bnd srt lst show ?thesis by blast
qed

text \<open>
  Two images: the progress goes 0, 50, 100 and back to 0.
\<close>

theorem C4_progress_percent_witness:
  "\<exists>r. processAndDownload sample_browser (box 800 600 True)
          [newImage (png_file ''a.png'' 400 300), newImage (png_file ''b.png'' 400 300)] = Some r \<and>
        (\<exists>vs. progress_log r = 0 # vs @ [0] \<and> length vs = 2 \<and> vs ! 0 = 50 \<and> vs ! 1 = 100 \<and>
              sorted (0 # vs) \<and> last vs = 100)"
  using C4_progress_percent [OF run_two] by (auto simp add: run_two)

text \<open>
  C4 as stated fails. For a single image the values set are 0, 100 and 0: 100 lies
  outside the interval from 0 to 1, the last value is 0 and not 1, and the values do
  not stay non-decreasing to the end.
\<close>

theorem C4_ratio_counterexample:
  "map_option progress_log
     (processAndDownload sample_browser (box 800 600 True) [newImage (png_file ''a.png'' 400 300)]) =
     Some [0, 100, 0] \<and>
   map_option alert_msg
     (processAndDownload sample_browser (box 800 600 True) [newImage (png_file ''a.png'' 400 300)]) =
     Some None \<and>
   \<not> (100 :: rat) \<le> 1 \<and> last [0, 100, 0 :: rat] \<noteq> 1 \<and> \<not> sorted [0, 100, 0 :: rat]"
  by (simp add: run_one)

text \<open>
  C7, as the code has it. A run that comes to its end has resized the items strictly
  in input order, one at a time, none reordered and none left out: the calls and the
  resolutions alternate, item by item in input order, and result \<open>i\<close> is the result of
  item \<open>i\<close>. The entry names of the archive always follow the submission order (they are
  a subsequence of the names of the items in submission order). For pairwise distinct
  item names the order of the entries is the submission order of all items of the
  batch, also of an item whose encoding gave null, and the entries that carry a blob
  are the transcoded items in submission order.
\<close>

theorem C7_input_order:
  assumes "processAndDownload env st images = Some r"
  shows "length (processedImages r) = length images \<and>
         (\<forall>i < length images. resizeImage env st (images ! i) = Some (processedImages r ! i)) \<and>
         resize_trace r =
           concat (map (\<lambda>(im, p). [Called im, Resolved p]) (zip images (processedImages r))) \<and>
         subseq (map fst (archive r)) (map (\<lambda>im. ''resized-'' @ name im) images) \<and>
         (distinct (map name images) \<longrightarrow>
            map fst (archive r) = map (\<lambda>im. ''resized-'' @ name im) images \<and>
            map fst (filter (\<lambda>e. snd e \<noteq> None) (archive r)) =
              map (\<lambda>im. ''resized-'' @ name im) (filter (transcoded env st) images))"
proof -
  note all = processAndDownload_SomeD(1) [OF assms]
  note ps = processAndDownload_SomeD(2) [OF assms]
  have len: "length (processedImages r) = length images"
    by (simp add: ps)
  have nth: "\<forall>i < length images. resizeImage env st (images ! i) = Some (processedImages r ! i)"
  proof (intro allI impI)
    fix i
    assume i: "i < length images"
    then have "images ! i \<in> set images" by simp
    with all obtain p where "resizeImage env st (images ! i) = Some p" by auto
    with i show "resizeImage env st (images ! i) = Some (processedImages r ! i)"
      by (simp add: ps)
  qed
  have "subseq (map fst (archive r)) (map (\<lambda>p. entry_name (p_name p)) (processedImages r))"
    using add_all_subseq [of "processedImages r" "[]"]
    by (simp add: processAndDownload_SomeD(4) [OF assms])
  then have sub: "subseq (map fst (archive r)) (map (\<lambda>im. ''resized-'' @ name im) images)"
    by (simp only: entry_names [OF assms]) (simp only: entry_name_def)
  have dist: "map fst (archive r) = map (\<lambda>im. ''resized-'' @ name im) images \<and>
            map fst (filter (\<lambda>e. snd e \<noteq> None) (archive r)) =
              map (\<lambda>im. ''resized-'' @ name im) (filter (transcoded env st) images)"
    if d: "distinct (map name images)"
  proof -
    let ?g = "\<lambda>im. (entry_name (name im), p_blob (the (resizeImage env st im)))"
    note a = archive_distinct [OF assms d]
    have names: "map fst (archive r) = map (\<lambda>im. ''resized-'' @ name im) images"
      by (simp add: a comp_def entry_name_def)
    have "filter (\<lambda>e. snd e \<noteq> None) (map ?g images) =
          map ?g (filter (\<lambda>im. p_blob (the (resizeImage env st im)) \<noteq> None) images)"
      by (simp add: filter_map comp_def)
    also have "filter (\<lambda>im. p_blob (the (resizeImage env st im)) \<noteq> None) images =
               filter (transcoded env st) images"
      using all by (intro filter_cong) (auto simp add: transcoded_def)
    finally have "map fst (filter (\<lambda>e. snd e \<noteq> None) (archive r)) =
          map (\<lambda>im. ''resized-'' @ name im) (filter (transcoded env st) images)"
      by (simp add: a comp_def entry_name_def)
    with names show ?thesis by simp
  qed
  note tr = trace_zip [OF assms]
  from dist have dist': "distinct (map name images) \<longrightarrow>
            map fst (archive r) = map (\<lambda>im. ''resized-'' @ name im) images \<and>
            map fst (filter (\<lambda>e. snd e \<noteq> None) (archive r)) =
              map (\<lambda>im. ''resized-'' @ name im) (filter (transcoded env st) images)"
    by (rule impI)
  show ?thesis
    by (intro conjI len nth tr sub dist')
qed

text \<open>
  Three images, the second of which encodes to null.
\<close>

theorem C7_input_order_witness:
  "\<exists>r. processAndDownload sample_browser (box 100 100 True)
          [newImage (png_file ''a.png'' 400 300), newImage (png_file ''thin.png'' 1 2000),
           newImage (png_file ''c.png'' 30 30)] = Some r \<and>
        length (processedImages r) = 3 \<and>
        processedImages r ! 1 = \<lparr>p_blob = None, p_name = ''thin.png''\<rparr> \<and>
        map fst (archive r) = [''resized-a.png'', ''resized-thin.png'', ''resized-c.png''] \<and>
        map fst (filter (\<lambda>e. snd e \<noteq> None) (archive r)) = [''resized-a.png'', ''resized-c.png'']"
proof -
  let ?a = "newImage (png_file ''a.png'' 400 300)"
  let ?t = "newImage (png_file ''thin.png'' 1 2000)"
  let ?c = "newImage (png_file ''c.png'' 30 30)"
  have "\<forall>im \<in> set [?a, ?t, ?c]. resizeImage sample_browser (box 100 100 True) im \<noteq> None"
    by (simp add: resizeImage_None_iff sample_browser_def browser_at_def newImage_def png_file_def)
  then obtain r where r: "processAndDownload sample_browser (box 100 100 True) [?a, ?t, ?c] = Some r"
    using processAndDownload_Some by blast
  have d: "distinct (map name [?a, ?t, ?c])"
    by (simp add: newImage_def png_file_def)
  have ta: "transcoded sample_browser (box 100 100 True) ?a"
    by (simp add: transcoded_def sample_defs)
  have tt: "\<not> transcoded sample_browser (box 100 100 True) ?t"
    by (simp add: transcoded_def sample_defs)
  have tc: "transcoded sample_browser (box 100 100 True) ?c"
    by (simp add: transcoded_def sample_defs)
  have pt: "resizeImage sample_browser (box 100 100 True) ?t = Some \<lparr>p_blob = None, p_name = ''thin.png''\<rparr>"
    by (simp add: sample_defs)
  note k = C7_input_order [OF r]
  from k have l3: "length (processedImages r) = 3" by simp
  from k have q: "\<forall>i < length [?a, ?t, ?c].
      resizeImage sample_browser (box 100 100 True) ([?a, ?t, ?c] ! i) = Some (processedImages r ! i)"
    by blast
  from q [rule_format, of 1] pt
  have n: "processedImages r ! 1 = \<lparr>p_blob = None, p_name = ''thin.png''\<rparr>"
    by (simp del: One_nat_def)
  from k d have e: "map fst (archive r) = [''resized-a.png'', ''resized-thin.png'', ''resized-c.png'']"
    by (simp add: newImage_def png_file_def)
  from k d ta tt tc
  have f: "map fst (filter (\<lambda>e. snd e \<noteq> None) (archive r)) = [''resized-a.png'', ''resized-c.png'']"
    by (simp add: newImage_def png_file_def del: One_nat_def)
  show ?thesis
    by (rule exI [of _ r]) (intro conjI r l3 n e f)
qed

text \<open>
  C7 as stated fails. Of three transcoded images named \<open>a.png\<close>, \<open>b.png\<close>, \<open>a.png\<close> the
  archive lists the blob of the third before the blob of the second. And with distinct
  names and a second image that encodes to null, the archive has three entries in
  order, one more than the transcoded items.
\<close>

theorem C7_order_counterexample:
  "map_option archive (processAndDownload sample_browser (box 800 600 True)
     [newImage (png_file ''a.png'' 400 300), newImage (png_file ''b.png'' 400 300),
      newImage (png_file ''a.png'' 20 10)]) =
     Some [(''resized-a.png'', Some [20, 10, 7]), (''resized-b.png'', Some [400, 300, 7])] \<and>
   resizeImage sample_browser (box 800 600 True) (newImage (png_file ''b.png'' 400 300)) =
     Some \<lparr>p_blob = Some [400, 300, 7], p_name = ''b.png''\<rparr> \<and>
   resizeImage sample_browser (box 800 600 True) (newImage (png_file ''a.png'' 20 10)) =
     Some \<lparr>p_blob = Some [20, 10, 7], p_name = ''a.png''\<rparr> \<and>
   map_option archive (processAndDownload sample_browser (box 100 100 True)
     [newImage (png_file ''a.png'' 400 300), newImage (png_file ''thin.png'' 1 2000),
      newImage (png_file ''c.png'' 30 30)]) =
     Some [(''resized-a.png'', Some [400, 300, 7]), (''resized-thin.png'', None),
           (''resized-c.png'', Some [30, 30, 7])] \<and>
   \<not> transcoded sample_browser (box 100 100 True) (newImage (png_file ''thin.png'' 1 2000))"
  by (simp add: run_dup3 run_three) (simp add: transcoded_def sample_defs)

text \<open>
  C8, as the code has it. In a run that comes to its end on a batch with pairwise
  distinct names, the archive holds exactly one entry for each item of the batch, at
  the item's position: its name is \<open>resized-\<close> followed by the item's name and its
  content is the blob the item's promise resolved with, null when the encoding gave
  null. There are no other entries.
\<close>

theorem C8_archive_entries:
  assumes "processAndDownload env st images = Some r" and "distinct (map name images)"
  shows "length (archive r) = length images \<and>
         distinct (map fst (archive r)) \<and>
         (\<forall>i < length images. \<exists>p. resizeImage env st (images ! i) = Some p \<and>
            archive r ! i = (''resized-'' @ name (images ! i), p_blob p))"
proof -
  note a = archive_distinct [OF assms]
  have len: "length (archive r) = length images"
    by (simp add: a)
  have "map fst (archive r) = map entry_name (map name images)"
    by (simp add: a comp_def)
  moreover have "distinct (map entry_name (map name images))"
    using assms(2) inj_entry_name by (simp only: distinct_map) (simp add: inj_on_def)
  ultimately have dis: "distinct (map fst (archive r))"
    by (simp only:)
  have nth: "\<forall>i < length images. \<exists>p. resizeImage env st (images ! i) = Some p \<and>
            archive r ! i = (''resized-'' @ name (images ! i), p_blob p)"
  proof (intro allI impI)
    fix i
    assume i: "i < length images"
    then have "images ! i \<in> set images" by simp
    with processAndDownload_SomeD(1) [OF assms(1)]
    obtain p where p: "resizeImage env st (images ! i) = Some p" by auto
    with i have "archive r ! i = (''resized-'' @ name (images ! i), p_blob p)"
      by (simp add: a entry_name_def)
    with p show "\<exists>p. resizeImage env st (images ! i) = Some p \<and>
            archive r ! i = (''resized-'' @ name (images ! i), p_blob p)"
      by simp
  qed
  from len dis nth show ?thesis by (intro conjI)
qed

text \<open>
  The specification's scenario: two 400 by 300 images \<open>a.png\<close> and \<open>b.png\<close>.
\<close>

theorem C8_archive_entries_witness:
  "\<exists>r. processAndDownload sample_browser (box 800 600 True)
          [newImage (png_file ''a.png'' 400 300), newImage (png_file ''b.png'' 400 300)] = Some r \<and>
        distinct (map name [newImage (png_file ''a.png'' 400 300), newImage (png_file ''b.png'' 400 300)]) \<and>
        length (archive r) = 2 \<and>
        archive r ! 0 = (''resized-a.png'', Some [400, 300, 7]) \<and>
        archive r ! 1 = (''resized-b.png'', Some [400, 300, 7])"
proof -
  let ?a = "newImage (png_file ''a.png'' 400 300)"
  let ?b = "newImage (png_file ''b.png'' 400 300)"
  obtain r where r: "processAndDownload sample_browser (box 800 600 True) [?a, ?b] = Some r"
    using run_two by (rule that)
  have d: "distinct (map name [?a, ?b])"
    by (simp add: newImage_def png_file_def)
  have pa: "resizeImage sample_browser (box 800 600 True) ?a =
      Some \<lparr>p_blob = Some [400, 300, 7], p_name = ''a.png''\<rparr>"
    by (simp add: sample_defs)
  have pb: "resizeImage sample_browser (box 800 600 True) ?b =
      Some \<lparr>p_blob = Some [400, 300, 7], p_name = ''b.png''\<rparr>"
    by (simp add: sample_defs)
  have na: "''resized-'' @ name ?a = ''resized-a.png''"
    by (simp add: newImage_def png_file_def)
  have nb: "''resized-'' @ name ?b = ''resized-b.png''"
    by (simp add: newImage_def png_file_def)
  note k = C8_archive_entries [OF r d]
  from k [THEN conjunct1] have l: "length (archive r) = 2" by simp
  note q = k [THEN conjunct2, THEN conjunct2]
  from q [rule_format, of 0]
  obtain p0 where "resizeImage sample_browser (box 800 600 True) ?a = Some p0"
    and "archive r ! 0 = (''resized-'' @ name ?a, p_blob p0)"
    by auto
  with pa na have e0: "archive r ! 0 = (''resized-a.png'', Some [400, 300, 7])"
    by (simp only:) simp
  from q [rule_format, of 1]
  obtain p1 where "resizeImage sample_browser (box 800 600 True) ?b = Some p1"
    and "archive r ! 1 = (''resized-'' @ name ?b, p_blob p1)"
    by auto
  with pb nb have e1: "archive r ! 1 = (''resized-b.png'', Some [400, 300, 7])"
    by (simp only:) simp
  show ?thesis
    by (rule exI [of _ r]) (intro conjI r d l e0 e1)
qed

text \<open>
  C8 as stated fails. An image that encodes to null is not transcoded, yet the archive
  holds an entry for it. And of two transcoded images with the same name only one
  entry remains, holding the blob of the second.
\<close>

theorem C8_entries_counterexample:
  "map_option archive (processAndDownload sample_browser (box 100 100 True)
     [newImage (png_file ''thin.png'' 1 2000)]) = Some [(''resized-thin.png'', None)] \<and>
   \<not> transcoded sample_browser (box 100 100 True) (newImage (png_file ''thin.png'' 1 2000)) \<and>
   map_option archive (processAndDownload sample_browser (box 800 600 True)
     [newImage (png_file ''a.png'' 400 300), newImage (png_file ''a.png'' 20 10)]) =
     Some [(''resized-a.png'', Some [20, 10, 7])] \<and>
   resizeImage sample_browser (box 800 600 True) (newImage (png_file ''a.png'' 400 300)) =
     Some \<lparr>p_blob = Some [400, 300, 7], p_name = ''a.png''\<rparr>"
  by (simp add: run_thin_alone run_same_name) (simp add: transcoded_def sample_defs)




text \<open>
  C9, as the code has it. Take two runs on the same items in the same order with the same
  sizes, in two environments that load and encode alike, and let the first come to its
  end. Then the second comes to its end too and the two archives hold the same entries:
  the same names with the same contents in the same order. Each finalized buffer is the
  serialisation of these entries with the date of its own run, so the two buffers are
  identical when the serialiser and the date agree.
\<close>

theorem C9_same_entries:
  assumes "load env1 = load env2" and "toBlob env1 = toBlob env2"
    and "processAndDownload env1 st images = Some r1"
  shows "\<exists>r2. processAndDownload env2 st images = Some r2 \<and>
           archive r2 = archive r1 \<and>
           download r1 = map_option (Pair ''resized-images.zip'')
                           (generateAsync env1 (now env1) (archive r1)) \<and>
           download r2 = map_option (Pair ''resized-images.zip'')
                           (generateAsync env2 (now env2) (archive r1)) \<and>
           (generateAsync env1 = generateAsync env2 \<and> now env1 = now env2 \<longrightarrow>
              download r2 = download r1)"
proof -
  have same: "resizeImage env1 st im = resizeImage env2 st im" for im
    by (simp only: resizeImage_def assms(1,2))
  from processAndDownload_SomeD(1) [OF assms(3)]
  have "\<forall>im \<in> set images. resizeImage env2 st im \<noteq> None"
    by (simp add: same)
  then obtain r2 where r2: "processAndDownload env2 st images = Some r2"
    using processAndDownload_Some by blast
  have ps: "processedImages r2 = processedImages r1"
    by (simp add: processAndDownload_SomeD(2) [OF r2] processAndDownload_SomeD(2) [OF assms(3)] same)
  then have ar: "archive r2 = archive r1"
    by (simp add: processAndDownload_SomeD(4) [OF r2] processAndDownload_SomeD(4) [OF assms(3)])
  have d1: "download r1 = map_option (Pair ''resized-images.zip'')
                           (generateAsync env1 (now env1) (archive r1))"
    using assms(3)
    by (auto simp add: processAndDownload_def Let_def split: option.splits prod.splits)
  have "download r2 = map_option (Pair ''resized-images.zip'')
                           (generateAsync env2 (now env2) (archive r2))"
    using r2
    by (auto simp add: processAndDownload_def Let_def split: option.splits prod.splits)
  then have d2: "download r2 = map_option (Pair ''resized-images.zip'')
                           (generateAsync env2 (now env2) (archive r1))"
    by (simp only: ar)
  from d1 d2 have eq: "generateAsync env1 = generateAsync env2 \<and> now env1 = now env2 \<longrightarrow>
              download r2 = download r1"
    by simp
  show ?thesis
    by (rule exI [of _ r2]) (intro conjI r2 ar d1 d2 eq)
qed

text \<open>
  Two images, run at date 10 and at date 70: the same entries, different bytes. One
  image run twice at date 10: the same bytes.
\<close>

theorem C9_same_entries_witness:
  "load (browser_at 10) = load (browser_at 70) \<and>
   toBlob (browser_at 10) = toBlob (browser_at 70) \<and>
   (\<exists>r1 r2.
      processAndDownload (browser_at 10) (box 800 600 True)
        [newImage (png_file ''a.png'' 400 300), newImage (png_file ''b.png'' 400 300)] = Some r1 \<and>
      processAndDownload (browser_at 70) (box 800 600 True)
        [newImage (png_file ''a.png'' 400 300), newImage (png_file ''b.png'' 400 300)] = Some r2 \<and>
      archive r2 = archive r1 \<and>
      download r1 = Some (''resized-images.zip'', [10, 400, 300, 7, 10, 400, 300, 7]) \<and>
      download r2 = Some (''resized-images.zip'', [70, 400, 300, 7, 70, 400, 300, 7])) \<and>
   (\<exists>r1 r2.
      processAndDownload (browser_at 10) (box 800 600 True)
        [newImage (png_file ''a.png'' 400 300)] = Some r1 \<and>
      processAndDownload (browser_at 10) (box 800 600 True)
        [newImage (png_file ''a.png'' 400 300)] = Some r2 \<and>
      now (browser_at 10) = now (browser_at 10) \<and>
      download r2 = download r1)"
proof -
  let ?a = "newImage (png_file ''a.png'' 400 300)"
  let ?b = "newImage (png_file ''b.png'' 400 300)"
  have l: "load (browser_at 10) = load (browser_at 70)"
    by (simp add: browser_at_def)
  have t: "toBlob (browser_at 10) = toBlob (browser_at 70)"
    by (simp add: browser_at_def)
  have "processAndDownload (browser_at 10) (box 800 600 True) [?a, ?b] =
        processAndDownload sample_browser (box 800 600 True) [?a, ?b]"
    by (simp only: sample_browser_def)
  then obtain r1 where r1: "processAndDownload (browser_at 10) (box 800 600 True) [?a, ?b] = Some r1"
    and a1: "archive r1 = [(''resized-a.png'', Some [400, 300, 7]), (''resized-b.png'', Some [400, 300, 7])]"
    by (simp add: run_two)
  from C9_same_entries [OF l t r1]
  obtain r2 where r2: "processAndDownload (browser_at 70) (box 800 600 True) [?a, ?b] = Some r2"
    and ar: "archive r2 = archive r1"
    and d1: "download r1 = map_option (Pair ''resized-images.zip'')
               (generateAsync (browser_at 10) (now (browser_at 10)) (archive r1))"
    and d2: "download r2 = map_option (Pair ''resized-images.zip'')
               (generateAsync (browser_at 70) (now (browser_at 70)) (archive r1))"
    by blast
  from d1 have e1: "download r1 = Some (''resized-images.zip'', [10, 400, 300, 7, 10, 400, 300, 7])"
    by (simp add: a1 browser_at_def)
  from d2 have e2: "download r2 = Some (''resized-images.zip'', [70, 400, 300, 7, 70, 400, 300, 7])"
    by (simp add: a1 browser_at_def)
  have first: "\<exists>r1 r2.
      processAndDownload (browser_at 10) (box 800 600 True) [?a, ?b] = Some r1 \<and>
      processAndDownload (browser_at 70) (box 800 600 True) [?a, ?b] = Some r2 \<and>
      archive r2 = archive r1 \<and>
      download r1 = Some (''resized-images.zip'', [10, 400, 300, 7, 10, 400, 300, 7]) \<and>
      download r2 = Some (''resized-images.zip'', [70, 400, 300, 7, 70, 400, 300, 7])"
    by (rule exI [of _ r1], rule exI [of _ r2]) (intro conjI r1 r2 ar e1 e2)
  have "processAndDownload (browser_at 10) (box 800 600 True) [?a] =
        processAndDownload sample_browser (box 800 600 True) [?a]"
    by (simp only: sample_browser_def)
  then obtain s1 where s1: "processAndDownload (browser_at 10) (box 800 600 True) [?a] = Some s1"
    by (simp add: run_one)
  from C9_same_entries [OF refl refl s1]
  obtain s2 where s2: "processAndDownload (browser_at 10) (box 800 600 True) [?a] = Some s2"
    and imp: "generateAsync (browser_at 10) = generateAsync (browser_at 10) \<and>
              now (browser_at 10) = now (browser_at 10) \<longrightarrow> download s2 = download s1"
    by blast
  from imp have ds: "download s2 = download s1" by simp
  have second: "\<exists>r1 r2.
      processAndDownload (browser_at 10) (box 800 600 True) [?a] = Some r1 \<and>
      processAndDownload (browser_at 10) (box 800 600 True) [?a] = Some r2 \<and>
      now (browser_at 10) = now (browser_at 10) \<and>
      download r2 = download r1"
    by (rule exI [of _ s1], rule exI [of _ s2]) (intro conjI s1 s2 refl ds)
  show ?thesis
    by (intro conjI l t first second)
qed

text \<open>
  C9 as stated fails. The same image with the same sizes, the same loading, encoding
  and serialising, at two different dates: the entries carry the date of the run, and
  the finalized buffers differ.
\<close>

theorem C9_bytes_counterexample:
  "load (browser_at 10) = load (browser_at 70) \<and>
   toBlob (browser_at 10) = toBlob (browser_at 70) \<and>
   generateAsync (browser_at 10) = generateAsync (browser_at 70) \<and>
   map_option download (processAndDownload (browser_at 10) (box 800 600 True)
     [newImage (png_file ''a.png'' 400 300)]) =
     Some (Some (''resized-images.zip'', [10, 400, 300, 7])) \<and>
   map_option download (processAndDownload (browser_at 70) (box 800 600 True)
     [newImage (png_file ''a.png'' 400 300)]) =
     Some (Some (''resized-images.zip'', [70, 400, 300, 7]))"
  by (simp add: browser_at_def processAndDownload_def resize_loop_eq resizeImage_def
      onload_canvas_def targetSize_def add_all_def entry_name_def newImage_def png_file_def
      box_def Let_def)

end
